theory Spec2Isabelle
  imports Main "HOL-Library.Char_ord" "HOL-Library.List_Lexorder"
begin

section \<open>Strings\<close>

text \<open>
  Python strings are modelled as \<open>string\<close>: one \<open>char\<close> per code point, for code points
  below 256. Python compares strings code point by code point, a proper prefix being
  smaller; that is the lexicographic order on \<open>char list\<close> over the order of the character
  codes. The character classes below are those of Python 3 on that range.
\<close>

definition is_sep :: "char \<Rightarrow> bool" where
  \<comment> \<open>the class \<open>[-_.]\<close>\<close>
  "is_sep c = (c = CHR ''-'' \<or> c = CHR ''_'' \<or> c = CHR ''.'')"

definition is_space :: "char \<Rightarrow> bool" where
  \<comment> \<open>\<open>\s\<close> of a str pattern and the characters \<open>str.strip()\<close> removes\<close>
  "is_space c = (let n = (of_char c :: nat) in
     (9 \<le> n \<and> n \<le> 13) \<or> (28 \<le> n \<and> n \<le> 32) \<or> n = 133 \<or> n = 160)"

definition is_alnum :: "char \<Rightarrow> bool" where
  \<comment> \<open>the class \<open>[A-Za-z0-9]\<close>\<close>
  "is_alnum c = (let n = (of_char c :: nat) in
     (65 \<le> n \<and> n \<le> 90) \<or> (97 \<le> n \<and> n \<le> 122) \<or> (48 \<le> n \<and> n \<le> 57))"

definition is_name_char :: "char \<Rightarrow> bool" where
  \<comment> \<open>the class \<open>[A-Za-z0-9._-]\<close>\<close>
  "is_name_char c = (is_alnum c \<or> is_sep c)"

definition lower_char :: "char \<Rightarrow> char" where
  "lower_char c = (let n = (of_char c :: nat) in
     if (65 \<le> n \<and> n \<le> 90) \<or> (192 \<le> n \<and> n \<le> 214) \<or> (216 \<le> n \<and> n \<le> 222)
     then char_of (n + 32) else c)"

definition lower :: "string \<Rightarrow> string" where
  \<comment> \<open>\<open>str.lower()\<close>\<close>
  "lower s = map lower_char s"

definition strip :: "string \<Rightarrow> string" where
  \<comment> \<open>\<open>str.strip()\<close>\<close>
  "strip s = rev (dropWhile is_space (rev (dropWhile is_space s)))"

section \<open>Distribution names\<close>

text \<open>
  \<open>re.sub(r"[-_.]+", "-", name)\<close>: every maximal run of separator characters is replaced
  by one hyphen, scanning from the left.
\<close>

function collapse_seps :: "string \<Rightarrow> string" where
  "collapse_seps [] = []"
| "collapse_seps (c # cs) =
     (if is_sep c then CHR ''-'' # collapse_seps (dropWhile is_sep cs)
      else c # collapse_seps cs)"
  by pat_completeness auto
termination
  by (relation "measure length") (auto simp: length_dropWhile_le less_Suc_eq_le)

definition normalize_dist_name :: "string \<Rightarrow> string" where
  "normalize_dist_name name = lower (collapse_seps name)"

text \<open>
  \<open>REQUIREMENT_NAME_PATTERN = ^\s*([A-Za-z0-9][A-Za-z0-9._-]*)\<close>, matched at the start of
  the string. The greedy \<open>\s*\<close> takes all leading white space (no white space character is
  alphanumeric, so backtracking changes nothing); the group is the longest run of name
  characters after one alphanumeric character. \<open>None\<close> is "no match".
\<close>

definition requirement_name_match :: "string \<Rightarrow> string option" where
  "requirement_name_match requirement =
     (case dropWhile is_space requirement of
        [] \<Rightarrow> None
      | c # cs \<Rightarrow> if is_alnum c then Some (c # takeWhile is_name_char cs) else None)"

definition parse_requirement_name :: "string \<Rightarrow> string" where
  "parse_requirement_name requirement =
     (case requirement_name_match requirement of
        None \<Rightarrow> strip requirement
      | Some name \<Rightarrow> name)"

section \<open>Sync planner\<close>

text \<open>
  \<open>current_map.setdefault(dep_name, dep)\<close> in a loop over the current declarations: a key
  that is already present keeps its value.
\<close>

definition setdefault :: "('k \<rightharpoonup> 'v) \<Rightarrow> 'k \<Rightarrow> 'v \<Rightarrow> ('k \<rightharpoonup> 'v)" where
  "setdefault m k v = (case m k of None \<Rightarrow> m(k \<mapsto> v) | Some _ \<Rightarrow> m)"

fun build_current_map :: "string list \<Rightarrow> (string \<rightharpoonup> string) \<Rightarrow> (string \<rightharpoonup> string)" where
  "build_current_map [] current_map = current_map"
| "build_current_map (dep # deps) current_map =
     build_current_map deps
       (setdefault current_map (normalize_dist_name (parse_requirement_name dep)) dep)"

text \<open>
  The inferred set is a Python set; \<open>sorted\<close> lists it in ascending order.
  \<open>current_map.get(dep_name, dep_name)\<close> is the stored literal, or the name itself.
\<close>

definition compute_synced_dependencies :: "string list \<Rightarrow> string set \<Rightarrow> string list" where
  "compute_synced_dependencies current_dependencies inferred_dependencies =
     (let current_map = build_current_map current_dependencies Map.empty
      in map (\<lambda>dep_name. case current_map dep_name of None \<Rightarrow> dep_name | Some dep \<Rightarrow> dep)
           (sorted_list_of_set inferred_dependencies))"

section \<open>Exceptions\<close>

datatype exn =
  SyntaxError
  | ParserFailure    \<comment> \<open>any other exception of \<open>ast.parse\<close> (it is not caught)\<close>
  | FileNotFoundError
  | TOMLDecodeError
  | OSError

section \<open>Source scanner\<close>

text \<open>
  The syntax tree of a source file, as far as \<open>extract_imports_from_source\<close> looks at it:
  \<open>Import\<close> carries the \<open>name\<close> of each alias in \<open>node.names\<close>, \<open>ImportFrom\<close> carries
  \<open>node.module\<close> and \<open>node.level\<close>, and every other kind of node carries its child nodes.
  (The alias children of the two import nodes are of another kind and have no children.)
\<close>

datatype node =
  Import "string list"
  | ImportFrom "string option" nat
  | Other "node list"

fun child_nodes :: "node \<Rightarrow> node list" where
  "child_nodes (Other children) = children"
| "child_nodes _ = []"

text \<open>
  \<open>ast.walk\<close>: a queue that starts with the root; the node at the front is taken, its
  children are appended at the back, and the node is yielded.
\<close>

function walk :: "node list \<Rightarrow> node list" where
  "walk [] = []"
| "walk (n # todo) = n # walk (todo @ child_nodes n)"
  by pat_completeness auto
termination
proof (relation "measure (\<lambda>todo. sum_list (map (\<lambda>n. Suc (size n)) todo))")
  show "wf (measure (\<lambda>todo. sum_list (map (\<lambda>n. Suc (size n)) todo)))"
    by simp
next
  fix n :: node and todo :: "node list"
  have "sum_list (map (\<lambda>n. Suc (size n)) (child_nodes n)) < Suc (size n)"
    by (cases n) (simp_all add: size_list_conv_sum_list sum_list_Suc)
  then show "(todo @ child_nodes n, n # todo)
      \<in> measure (\<lambda>todo. sum_list (map (\<lambda>n. Suc (size n)) todo))"
    by simp
qed

text \<open>The nodes of a tree: the node itself and the nodes of its children.\<close>

fun nodes_of :: "node \<Rightarrow> node set" where
  "nodes_of (Other children) = insert (Other children) (\<Union>c\<in>set children. nodes_of c)"
| "nodes_of n = {n}"

definition first_segment :: "string \<Rightarrow> string" where
  \<comment> \<open>\<open>name.split(".", 1)[0]\<close>\<close>
  "first_segment name = takeWhile (\<lambda>c. c \<noteq> CHR ''.'') name"

fun node_imports :: "node \<Rightarrow> string set" where
  "node_imports (Import names) = set (map (\<lambda>name. lower (first_segment name)) names)"
| "node_imports (ImportFrom module level) =
     (case module of
        None \<Rightarrow> {}
      | Some m \<Rightarrow> if level \<noteq> 0 \<or> m = [] then {} else {lower (first_segment m)})"
| "node_imports (Other children) = {}"

fun scan_nodes :: "node list \<Rightarrow> string set \<Rightarrow> string set" where
  "scan_nodes [] imports = imports"
| "scan_nodes (n # ns) imports = scan_nodes ns (imports \<union> node_imports n)"

text \<open>
  \<open>ast.parse\<close> is the parameter \<open>parse\<close>: it returns the tree or raises. Only
  \<open>SyntaxError\<close> is caught.
\<close>

definition extract_imports_from_source ::
  "(string \<Rightarrow> exn + node) \<Rightarrow> string \<Rightarrow> exn + string set" where
  "extract_imports_from_source parse source =
     (case parse source of
        Inl SyntaxError \<Rightarrow> Inr {}
      | Inl e \<Rightarrow> Inl e
      | Inr tree \<Rightarrow> Inr (scan_nodes (walk [tree]) {}))"

text \<open>
  A project tree: a file has a name and its decoded text (\<open>read_text\<close> with
  \<open>errors="ignore"\<close>), a directory has a name and its entries.
\<close>

datatype entry =
  File string string
  | Dir string "entry list"







section \<open>Distribution resolver\<close>

text \<open>
  \<open>importlib.metadata.packages_distributions()\<close> is the parameter \<open>raw_map\<close>: its items in
  iteration order, each a module name with the distributions reported for it.
\<close>

fun build_distribution_loop ::
  "(string \<times> string list) list \<Rightarrow> (string \<rightharpoonup> string list) \<Rightarrow> (string \<rightharpoonup> string list)" where
  "build_distribution_loop [] mapping = mapping"
| "build_distribution_loop ((module_name, distributions) # items) mapping =
     (let normalized = sorted_list_of_set
            (set (map normalize_dist_name (filter (\<lambda>dep. dep \<noteq> []) distributions)))
      in build_distribution_loop items
           (if normalized \<noteq> [] then mapping(lower module_name \<mapsto> normalized) else mapping))"

definition build_distribution_map :: "(string \<times> string list) list \<Rightarrow> (string \<rightharpoonup> string list)" where
  "build_distribution_map raw_map = build_distribution_loop raw_map Map.empty"

text \<open>
  One turn of the loop of \<open>infer_dependencies\<close>. \<open>if mapped_dep\<close> and \<open>if dep_candidates\<close>
  are Python truth tests: a missing entry and an empty string or list both fail them.
\<close>

definition infer_step ::
  "(string \<rightharpoonup> string list) \<Rightarrow> string set \<Rightarrow> string set \<Rightarrow> (string \<rightharpoonup> string)
     \<Rightarrow> string \<Rightarrow> string set \<Rightarrow> string set" where
  "infer_step distribution_map local_modules stdlib_modules explicit_map module inferred =
     (if module \<in> stdlib_modules \<or> module \<in> local_modules then inferred
      else case explicit_map module of
        Some (c # cs) \<Rightarrow> insert (normalize_dist_name (c # cs)) inferred
      | _ \<Rightarrow>
        (case distribution_map module of
           Some (candidate # _) \<Rightarrow> insert (normalize_dist_name candidate) inferred
         | _ \<Rightarrow> insert (normalize_dist_name module) inferred))"

fun infer_loop ::
  "(string \<rightharpoonup> string list) \<Rightarrow> string set \<Rightarrow> string set \<Rightarrow> (string \<rightharpoonup> string)
     \<Rightarrow> string list \<Rightarrow> string set \<Rightarrow> string set" where
  "infer_loop dm lm sm em [] inferred = inferred"
| "infer_loop dm lm sm em (module # modules) inferred =
     infer_loop dm lm sm em modules (infer_step dm lm sm em module inferred)"

text \<open>
  The set \<open>imports\<close> is given by the list of its elements in the order the loop visits
  them. \<open>explicit_map or {}\<close>: no map is the empty map.
\<close>

definition infer_dependencies ::
  "string list \<Rightarrow> (string \<rightharpoonup> string list) \<Rightarrow> string set \<Rightarrow> string set
     \<Rightarrow> (string \<rightharpoonup> string) option \<Rightarrow> string set" where
  "infer_dependencies imports distribution_map local_modules stdlib_modules explicit_map =
     infer_loop distribution_map local_modules stdlib_modules
       (case explicit_map of None \<Rightarrow> Map.empty | Some m \<Rightarrow> m) imports {}"

section \<open>Manifest reader\<close>

text \<open>
  An entry of the manifest's dependency array is a string or a value of another type.
  The files that hold manifests are a map from path to text.
\<close>

datatype toml_value = TomlString string | TomlOther

fun string_entries :: "toml_value list \<Rightarrow> string list" where
  \<comment> \<open>\<open>[dep for dep in deps if isinstance(dep, str)]\<close>\<close>
  "string_entries [] = []"
| "string_entries (TomlString dep # deps) = dep # string_entries deps"
| "string_entries (TomlOther # deps) = string_entries deps"

text \<open>
  The parameter \<open>project_dependencies\<close> is \<open>tomllib.loads\<close> followed by the two lookups
  \<open>data.get("project", {})\<close> and \<open>project.get("dependencies", []) or []\<close>: the dependency
  array of a manifest text, or the exception raised.
\<close>

definition load_declared_dependencies ::
  "(string \<Rightarrow> exn + toml_value list) \<Rightarrow> (string \<rightharpoonup> string) \<Rightarrow> string
     \<Rightarrow> exn + (string set \<times> string list)" where
  "load_declared_dependencies project_dependencies files pyproject_path =
     (case files pyproject_path of
        None \<Rightarrow> Inl FileNotFoundError
      | Some text \<Rightarrow>
        (case project_dependencies text of
           Inl e \<Rightarrow> Inl e
         | Inr deps \<Rightarrow>
           (let raw_dependencies = string_entries deps;
                normalized_dependencies =
                  set (map (\<lambda>dep. normalize_dist_name (parse_requirement_name dep))
                         raw_dependencies)
            in Inr (normalized_dependencies, raw_dependencies))))"

definition missing_dependencies :: "string set \<Rightarrow> string set \<Rightarrow> string set" where
  \<comment> \<open>\<open>inferred_dependencies - declared_dependencies\<close> in \<open>analyze_project\<close>\<close>
  "missing_dependencies inferred declared = inferred - declared"

definition unused_dependencies :: "string set \<Rightarrow> string set \<Rightarrow> string set" where
  \<comment> \<open>\<open>declared_dependencies - inferred_dependencies\<close> in \<open>analyze_project\<close>\<close>
  "unused_dependencies inferred declared = declared - inferred"

section \<open>Writing the manifest\<close>

text \<open>
  The structured document editor (\<open>tomlkit\<close>) is a parameter: a record of the operations
  \<open>sync_project_dependencies\<close> calls on a document of type \<open>'d\<close>.
\<close>

record 'd editor =
  parse_document :: "string \<Rightarrow> exn + 'd"             \<comment> \<open>\<open>tomlkit.parse\<close>\<close>
  has_project :: "'d \<Rightarrow> bool"                        \<comment> \<open>\<open>"project" in document\<close>\<close>
  add_project :: "'d \<Rightarrow> 'd"                          \<comment> \<open>\<open>document["project"] = tomlkit.table()\<close>\<close>
  get_dependencies :: "'d \<Rightarrow> toml_value list"        \<comment> \<open>\<open>project_table.get("dependencies", [])\<close>\<close>
  set_dependencies :: "'d \<Rightarrow> string list \<Rightarrow> 'd"      \<comment> \<open>the multi-line array stored in the table\<close>
  dumps :: "'d \<Rightarrow> string"                            \<comment> \<open>\<open>tomlkit.dumps\<close>\<close>

text \<open>
  \<open>Path.write_text\<close> opens the file for writing, which empties it, writes the text into
  it and closes it. Whether the write goes through is up to the environment, so the
  outcome is a parameter: \<open>Completes\<close>, or \<open>FailsAfter k\<close> when an \<open>OSError\<close> is raised
  once \<open>k\<close> characters have reached the file.
\<close>

datatype write_outcome = Completes | FailsAfter nat

definition write_text ::
  "write_outcome \<Rightarrow> (string \<rightharpoonup> string) \<Rightarrow> string \<Rightarrow> string \<Rightarrow> exn option \<times> (string \<rightharpoonup> string)" where
  "write_text outcome files path data =
     (case outcome of
        Completes \<Rightarrow> (None, files(path \<mapsto> data))
      | FailsAfter k \<Rightarrow> (Some OSError, files(path \<mapsto> take k data)))"

record sync_result =
  changed :: bool
  wrote :: bool
  before :: "string list"
  after :: "string list"

text \<open>The result, or the exception raised, together with the files afterwards.\<close>

definition sync_project_dependencies ::
  "'d editor \<Rightarrow> write_outcome \<Rightarrow> (string \<rightharpoonup> string) \<Rightarrow> string \<Rightarrow> string set \<Rightarrow> bool
     \<Rightarrow> (exn + sync_result) \<times> (string \<rightharpoonup> string)" where
  "sync_project_dependencies ed outcome files pyproject_path inferred_dependencies write =
     (case files pyproject_path of
        None \<Rightarrow> (Inl FileNotFoundError, files)
      | Some source_text \<Rightarrow>
        (case parse_document ed source_text of
           Inl e \<Rightarrow> (Inl e, files)
         | Inr parsed \<Rightarrow>
           (let document = (if has_project ed parsed then parsed else add_project ed parsed);
                current_dependencies = string_entries (get_dependencies ed document);
                synced_dependencies =
                  compute_synced_dependencies current_dependencies inferred_dependencies;
                is_changed = (current_dependencies \<noteq> synced_dependencies)
            in if is_changed \<and> write then
                 (case write_text outcome files pyproject_path
                         (dumps ed (set_dependencies ed document synced_dependencies)) of
                    (Some e, files') \<Rightarrow> (Inl e, files')
                  | (None, files') \<Rightarrow>
                      (Inr \<lparr>changed = is_changed, wrote = True,
                            before = current_dependencies, after = synced_dependencies\<rparr>,
                       files'))
               else
                 (Inr \<lparr>changed = is_changed, wrote = False,
                       before = current_dependencies, after = synced_dependencies\<rparr>,
                  files))))"

text \<open>
  A small editor to run examples with: the document is the dependency array itself, and
  the text lists its entries, each closed by a semicolon.
\<close>

definition split_entries :: "string \<Rightarrow> string list" where
  "split_entries text =
     foldr (\<lambda>c acc. if c = CHR '';'' then [] # acc
                     else (case acc of [] \<Rightarrow> [[c]] | entry # entries \<Rightarrow> (c # entry) # entries))
       text []"

definition example_editor :: "toml_value list editor" where
  "example_editor =
     \<lparr>parse_document = (\<lambda>text. Inr (map TomlString (split_entries text))),
      has_project = (\<lambda>document. True),
      add_project = (\<lambda>document. document),
      get_dependencies = (\<lambda>document. document),
      set_dependencies = (\<lambda>document deps. map TomlString deps),
      dumps = (\<lambda>document. concat (map (\<lambda>v. case v of TomlString dep \<Rightarrow> dep @ '';''
                                                    | TomlOther \<Rightarrow> '';'') document))\<rparr>"

section \<open>Normalized names\<close>

lemma is_sep_code:
  "is_sep c \<longleftrightarrow>
     (of_char c :: nat) = 45 \<or> (of_char c :: nat) = 95 \<or> (of_char c :: nat) = 46"
proof -
  have "(c = CHR ''-'') = ((of_char c :: nat) = of_char (CHR ''-''))"
       "(c = CHR ''_'') = ((of_char c :: nat) = of_char (CHR ''_''))"
       "(c = CHR ''.'') = ((of_char c :: nat) = of_char (CHR ''.''))"
    by (simp_all only: of_char_eq_iff)
  then show ?thesis
    unfolding is_sep_def by simp
qed

lemma is_sep_lower_char [simp]: "is_sep (lower_char c) = is_sep c"
  by (auto simp: is_sep_code lower_char_def Let_def)

lemma is_sep_hyphen [simp]: "is_sep CHR ''-''"
  by (simp add: is_sep_def)

lemma lower_char_hyphen [simp]: "lower_char CHR ''-'' = CHR ''-''"
  by (simp add: lower_char_def)

lemma lower_char_idem [simp]: "lower_char (lower_char c) = lower_char c"
  by (auto simp: lower_char_def Let_def)

lemma lower_idem [simp]: "lower (lower s) = lower s"
  by (simp add: lower_def)

lemma dropWhile_sep_lower:
  "dropWhile is_sep (map lower_char s) = map lower_char (dropWhile is_sep s)"
  by (induction s) simp_all

lemma collapse_seps_lower: "collapse_seps (lower s) = lower (collapse_seps s)"
  unfolding lower_def
  by (induction s rule: collapse_seps.induct) (simp_all add: dropWhile_sep_lower)

lemma collapse_seps_head:
  "s = [] \<or> \<not> is_sep (hd s) \<Longrightarrow> dropWhile is_sep (collapse_seps s) = collapse_seps s"
  by (cases s) auto

lemma dropWhile_sep_head: "dropWhile is_sep s = [] \<or> \<not> is_sep (hd (dropWhile is_sep s))"
  using hd_dropWhile [of is_sep s] by blast

lemma dropWhile_collapse_dropWhile:
  "dropWhile is_sep (collapse_seps (dropWhile is_sep s)) = collapse_seps (dropWhile is_sep s)"
  by (rule collapse_seps_head [OF dropWhile_sep_head])

lemma collapse_seps_idem [simp]: "collapse_seps (collapse_seps s) = collapse_seps s"
  by (induction s rule: collapse_seps.induct) (simp_all add: dropWhile_collapse_dropWhile)

lemma normalize_dist_name_idem:
  "normalize_dist_name (normalize_dist_name s) = normalize_dist_name s"
  by (simp add: normalize_dist_name_def collapse_seps_lower)

lemma infer_step_normalized:
  assumes "\<forall>d\<in>inferred. normalize_dist_name d = d"
  shows "\<forall>d\<in>infer_step dm lm sm em module inferred. normalize_dist_name d = d"
  using assms
  by (auto simp: infer_step_def normalize_dist_name_idem split: option.splits list.splits)

lemma infer_loop_normalized:
  "\<forall>d\<in>inferred. normalize_dist_name d = d \<Longrightarrow>
   \<forall>d\<in>infer_loop dm lm sm em modules inferred. normalize_dist_name d = d"
proof (induction modules arbitrary: inferred)
  case Nil
  then show ?case by simp
next
  case (Cons module modules)
  from Cons.prems have "\<forall>d\<in>infer_step dm lm sm em module inferred. normalize_dist_name d = d"
    by (rule infer_step_normalized)
  then show ?case
    using Cons.IH by simp
qed

text \<open>
  C9. Every name in the set \<open>infer_dependencies\<close> returns is a fixed point of
  \<open>normalize_dist_name\<close>; when \<open>load_declared_dependencies\<close> returns, so is every name of
  its declared set, and hence every name of the missing and of the unused difference.
\<close>

theorem dependency_sets_normalized:
  "(\<forall>d\<in>infer_dependencies imports dm lm sm em. normalize_dist_name d = d) \<and>
   (load_declared_dependencies project_dependencies files pyproject_path = Inr (declared, raw) \<longrightarrow>
      (\<forall>d\<in>declared. normalize_dist_name d = d) \<and>
      (\<forall>d\<in>missing_dependencies (infer_dependencies imports dm lm sm em) declared.
          normalize_dist_name d = d) \<and>
      (\<forall>d\<in>unused_dependencies (infer_dependencies imports dm lm sm em) declared.
          normalize_dist_name d = d))"
proof -
  have inferred: "\<forall>d\<in>infer_dependencies imports dm lm sm em. normalize_dist_name d = d"
    unfolding infer_dependencies_def by (rule infer_loop_normalized) simp
  have declared: "\<forall>d\<in>declared. normalize_dist_name d = d"
    if "load_declared_dependencies project_dependencies files pyproject_path = Inr (declared, raw)"
    using that
    by (auto simp: load_declared_dependencies_def Let_def normalize_dist_name_idem
             split: option.splits sum.splits)
  from inferred declared show ?thesis
    by (auto simp: missing_dependencies_def unused_dependencies_def)
qed

theorem dependency_sets_normalized_witness:
  "infer_dependencies [''yaml'', ''os'', ''my_pkg''] [''yaml'' \<mapsto> [''PyYAML'']] {} {''os''} None
     = {''pyyaml'', ''my-pkg''} \<and>
   load_declared_dependencies (\<lambda>text. Inr [TomlString ''Typing_Extensions>=4'', TomlOther])
       [''pyproject.toml'' \<mapsto> ''[project]''] ''pyproject.toml''
     = Inr ({''typing-extensions''}, [''Typing_Extensions>=4'']) \<and>
   normalize_dist_name ''pyyaml'' = ''pyyaml'' \<and>
   normalize_dist_name ''my-pkg'' = ''my-pkg'' \<and>
   normalize_dist_name ''typing-extensions'' = ''typing-extensions''"
proof -
  have i: "infer_dependencies [''yaml'', ''os'', ''my_pkg''] [''yaml'' \<mapsto> [''PyYAML'']] {} {''os''} None
     = {''pyyaml'', ''my-pkg''}"
    by code_simp
  have l: "load_declared_dependencies (\<lambda>text. Inr [TomlString ''Typing_Extensions>=4'', TomlOther])
       [''pyproject.toml'' \<mapsto> ''[project]''] ''pyproject.toml''
     = Inr ({''typing-extensions''}, [''Typing_Extensions>=4''])"
    by code_simp
  show ?thesis
    using i l
      dependency_sets_normalized [of "[''yaml'', ''os'', ''my_pkg'']" "[''yaml'' \<mapsto> [''PyYAML'']]"
        "{}" "{''os''}" None "\<lambda>text. Inr [TomlString ''Typing_Extensions>=4'', TomlOther]"
        "[''pyproject.toml'' \<mapsto> ''[project]'']" "''pyproject.toml''"
        "{''typing-extensions''}" "[''Typing_Extensions>=4'']"]
    by simp
qed

section \<open>The synced list\<close>

lemma build_current_map_find:
  "build_current_map deps m n =
     (case m n of
        Some d \<Rightarrow> Some d
      | None \<Rightarrow> find (\<lambda>d. normalize_dist_name (parse_requirement_name d) = n) deps)"
  by (induction deps arbitrary: m) (auto simp: setdefault_def split: option.splits)

lemma compute_synced_find:
  "compute_synced_dependencies current inferred =
     map (\<lambda>name. case find (\<lambda>dep. normalize_dist_name (parse_requirement_name dep) = name) current of
                    None \<Rightarrow> name | Some dep \<Rightarrow> dep)
       (sorted_list_of_set inferred)"
  by (simp add: compute_synced_dependencies_def build_current_map_find)



lemma prefix_le: "(xs :: 'a::linorder list) \<le> xs @ ys"
  by (induction xs) simp_all

lemma length_collapse_seps_le: "length (collapse_seps s) \<le> length s"
proof (induction s rule: collapse_seps.induct)
  case 1
  show ?case by simp
next
  case (2 c cs)
  have "length (dropWhile is_sep cs) \<le> length cs"
    by (rule length_dropWhile_le)
  with 2 show ?case
    by (cases "is_sep c") auto
qed

lemma length_normalize_le: "length (normalize_dist_name s) \<le> length s"
  by (simp add: normalize_dist_name_def lower_def length_collapse_seps_le)

lemma dropWhile_same_length: "length (dropWhile P xs) = length xs \<Longrightarrow> dropWhile P xs = xs"
proof (cases xs)
  case Nil
  then show ?thesis by simp
next
  case (Cons x xs')
  assume len: "length (dropWhile P xs) = length xs"
  show ?thesis
  proof (cases "P x")
    case True
    have "length (dropWhile P xs') \<le> length xs'"
      by (rule length_dropWhile_le)
    with True Cons len show ?thesis
      by simp
  next
    case False
    with Cons show ?thesis by simp
  qed
qed

lemma normalize_Cons:
  "normalize_dist_name (c # cs) =
     (if is_sep c then CHR ''-'' # normalize_dist_name (dropWhile is_sep cs)
      else lower_char c # normalize_dist_name cs)"
  by (simp add: normalize_dist_name_def lower_def)

lemma normalized_prefix:
  "normalize_dist_name (xs @ ys) = xs @ ys \<Longrightarrow> normalize_dist_name xs = xs"
proof (induction xs)
  case Nil
  show ?case by (simp add: normalize_dist_name_def lower_def)
next
  case (Cons c cs)
  show ?case
  proof (cases "is_sep c")
    case False
    with Cons.prems have "lower_char c = c" "normalize_dist_name (cs @ ys) = cs @ ys"
      by (simp_all add: normalize_Cons)
    with False Cons.IH show ?thesis
      by (simp add: normalize_Cons)
  next
    case True
    with Cons.prems have c: "c = CHR ''-''"
      and rest: "normalize_dist_name (dropWhile is_sep (cs @ ys)) = cs @ ys"
      by (simp_all add: normalize_Cons)
    have "length (cs @ ys) \<le> length (dropWhile is_sep (cs @ ys))"
      using length_normalize_le [of "dropWhile is_sep (cs @ ys)"] rest by simp
    moreover have "length (dropWhile is_sep (cs @ ys)) \<le> length (cs @ ys)"
      by (rule length_dropWhile_le)
    ultimately have keep: "dropWhile is_sep (cs @ ys) = cs @ ys"
      by (intro dropWhile_same_length) simp
    with rest have "normalize_dist_name (cs @ ys) = cs @ ys"
      by simp
    then have IH: "normalize_dist_name cs = cs"
      by (rule Cons.IH)
    have "dropWhile is_sep cs = cs"
    proof (cases cs)
      case Nil
      then show ?thesis by simp
    next
      case (Cons d ds)
      with keep have "dropWhile is_sep (cs @ ys) \<noteq> []"
        by simp
      then have "\<not> is_sep (hd (dropWhile is_sep (cs @ ys)))"
        by (rule hd_dropWhile)
      with keep Cons have "\<not> is_sep d"
        by simp
      with Cons show ?thesis by simp
    qed
    with True c IH show ?thesis
      by (simp add: normalize_Cons)
  qed
qed

lemma alnum_not_space: "is_alnum c \<Longrightarrow> \<not> is_space c"
  by (auto simp: is_alnum_def is_space_def Let_def)

lemma key_of_normalized:
  assumes norm: "normalize_dist_name m = m" and lead: "m = [] \<or> \<not> is_space (hd m)"
  shows "normalize_dist_name (parse_requirement_name m) \<le> m \<and>
         normalize_dist_name (parse_requirement_name
            (normalize_dist_name (parse_requirement_name m)))
           = normalize_dist_name (parse_requirement_name m)"
proof (cases m)
  case Nil
  then show ?thesis
    by (simp add: parse_requirement_name_def requirement_name_match_def strip_def
          normalize_dist_name_def lower_def)
next
  case (Cons c cs)
  with lead have c: "\<not> is_space c"
    by simp
  show ?thesis
  proof (cases "is_alnum c")
    case True
    let ?name = "c # takeWhile is_name_char cs"
    have m: "m = ?name @ dropWhile is_name_char cs"
      by (simp add: Cons)
    have p: "parse_requirement_name m = ?name"
      using True c by (simp add: Cons parse_requirement_name_def requirement_name_match_def)
    have n: "normalize_dist_name ?name = ?name"
      using norm m normalized_prefix [of ?name "dropWhile is_name_char cs"] by simp
    have p': "parse_requirement_name ?name = ?name"
      using True c by (simp add: parse_requirement_name_def requirement_name_match_def)
    have "?name \<le> m"
      using prefix_le [of ?name "dropWhile is_name_char cs"] m by simp
    with p n p' show ?thesis
      by simp
  next
    case False
    let ?t = "rev (dropWhile is_space (rev m))"
    have p: "parse_requirement_name m = ?t"
      using False c by (simp add: Cons parse_requirement_name_def requirement_name_match_def strip_def)
    have m: "m = ?t @ rev (takeWhile is_space (rev m))"
      using takeWhile_dropWhile_id [of is_space "rev m"]
      by (metis rev_append rev_rev_ident)
    have n: "normalize_dist_name ?t = ?t"
      using norm m normalized_prefix [of ?t "rev (takeWhile is_space (rev m))"] by simp
    have "dropWhile is_space (rev m) = dropWhile is_space (rev cs @ [c])"
      by (simp add: Cons)
    also have "\<dots> = (if \<forall>x\<in>set (rev cs). is_space x then [c]
                      else dropWhile is_space (rev cs) @ [c])"
      using c by (simp add: dropWhile_append)
    finally obtain u where u: "dropWhile is_space (rev m) = u @ [c]"
      by (metis append_Nil)
    then have t: "?t = c # rev u"
      by simp
    have "strip ?t = rev (dropWhile is_space (rev ?t))"
      using c by (simp add: strip_def t)
    also have "\<dots> = ?t"
      by (simp add: dropWhile_idem)
    finally have s: "strip ?t = ?t" .
    have "requirement_name_match ?t = None"
      using False c by (simp add: t requirement_name_match_def)
    then have p': "parse_requirement_name ?t = ?t"
      by (simp add: parse_requirement_name_def s)
    have "?t \<le> m"
      using prefix_le [of ?t "rev (takeWhile is_space (rev m))"] m by simp
    with p n p' show ?thesis
      by simp
  qed
qed

lemma find_map_least:
  assumes "sorted ns" "n \<in> set ns" "P (f n)" "\<forall>m\<in>set ns. P (f m) \<longrightarrow> n \<le> m"
  shows "find P (map f ns) = Some (f n)"
  using assms
proof (induction ns)
  case Nil
  then show ?case by simp
next
  case (Cons a ns)
  show ?case
  proof (cases "P (f a)")
    case True
    with Cons.prems(4) have "n \<le> a"
      by simp
    moreover from Cons.prems(1,2) have "a \<le> n"
      by auto
    ultimately have "a = n"
      by simp
    with True show ?thesis
      by simp
  next
    case False
    with Cons.prems(3) have "n \<noteq> a"
      by auto
    with Cons.prems(2) have "n \<in> set ns"
      by simp
    moreover from Cons.prems(1) have "sorted ns"
      by simp
    moreover from Cons.prems(4) have "\<forall>m\<in>set ns. P (f m) \<longrightarrow> n \<le> m"
      by simp
    ultimately have "find P (map f ns) = Some (f n)"
      using Cons.prems(3) by (intro Cons.IH)
    with False show ?thesis
      by simp
  qed
qed


lemma sync_idempotent_keys:
  assumes fin: "finite inferred"
    and keys: "\<forall>m\<in>inferred.
        normalize_dist_name (parse_requirement_name m) \<in> inferred \<longrightarrow>
        normalize_dist_name (parse_requirement_name m) \<le> m \<and>
        normalize_dist_name (parse_requirement_name
            (normalize_dist_name (parse_requirement_name m)))
          = normalize_dist_name (parse_requirement_name m)"
  shows "compute_synced_dependencies (compute_synced_dependencies current inferred) inferred
       = compute_synced_dependencies current inferred"
proof -
  let ?key = "\<lambda>dep. normalize_dist_name (parse_requirement_name dep)"
  let ?emit = "\<lambda>name. case find (\<lambda>dep. ?key dep = name) current of
                          None \<Rightarrow> name | Some dep \<Rightarrow> dep"
  let ?ns = "sorted_list_of_set inferred"
  have ns: "set ?ns = inferred"
    using fin by simp
  have sorted: "sorted ?ns"
    by simp
  have declared: "?key (?emit n) = n" if f: "find (\<lambda>dep. ?key dep = n) current = Some d" for n d
  proof -
    from f have "?key d = n"
      by (auto simp: find_Some_iff)
    with f show ?thesis
      by simp
  qed
  have emit_key: "n \<le> m \<and> ?key (?emit n) = n"
    if m: "m \<in> inferred" and n: "n \<in> inferred" and k: "?key (?emit m) = n" for m n
  proof (cases "find (\<lambda>dep. ?key dep = m) current")
    case None
    with k have km: "?key m = n"
      by simp
    with keys m n have le: "n \<le> m" and idem: "?key n = n"
      by auto
    have "?key (?emit n) = n"
    proof (cases "find (\<lambda>dep. ?key dep = n) current")
      case None
      with idem show ?thesis by simp
    next
      case (Some d)
      then show ?thesis by (rule declared)
    qed
    with le show ?thesis by simp
  next
    case (Some d)
    then have mm: "?key (?emit m) = m"
      by (rule declared)
    with k have eq: "m = n"
      by simp
    from mm show ?thesis
      unfolding eq [symmetric] by simp
  qed
  have again: "(case find (\<lambda>dep. ?key dep = n) (map ?emit ?ns) of None \<Rightarrow> n | Some dep \<Rightarrow> dep)
      = ?emit n" if n: "n \<in> inferred" for n
  proof (cases "\<exists>m\<in>inferred. ?key (?emit m) = n")
    case True
    then obtain m where m: "m \<in> inferred" "?key (?emit m) = n"
      by blast
    from emit_key [OF m(1) n m(2)] have own: "?key (?emit n) = n"
      by simp
    have least: "\<forall>m\<in>set ?ns. ?key (?emit m) = n \<longrightarrow> n \<le> m"
      using emit_key n ns by blast
    have "n \<in> set ?ns"
      using n ns by simp
    with sorted have "find (\<lambda>dep. ?key dep = n) (map ?emit ?ns) = Some (?emit n)"
      using own least by (rule find_map_least)
    then show ?thesis
      by simp
  next
    case False
    then have "\<not> (\<exists>d. d \<in> set (map ?emit ?ns) \<and> ?key d = n)"
      using ns by auto
    then have none: "find (\<lambda>dep. ?key dep = n) (map ?emit ?ns) = None"
      by (simp only: find_None_iff simp_thms)
    from False n have "?key (?emit n) \<noteq> n"
      by blast
    then have "find (\<lambda>dep. ?key dep = n) current = None"
      using declared [of n] by (cases "find (\<lambda>dep. ?key dep = n) current") auto
    with none show ?thesis
      by simp
  qed
  have "compute_synced_dependencies (map ?emit ?ns) inferred = map ?emit ?ns"
    unfolding compute_synced_find [of "map ?emit ?ns"]
    by (rule map_cong [OF refl]) (use again ns in blast)
  then show ?thesis
    by (simp add: compute_synced_find)
qed


text \<open>
  C2, as the code has it. Running sync on its own output gives that output again when
  every inferred name is normalized and does not begin with white space.
\<close>

theorem sync_idempotent:
  assumes "finite inferred"
    and "\<forall>m\<in>inferred. normalize_dist_name m = m \<and> (m = [] \<or> \<not> is_space (hd m))"
  shows "compute_synced_dependencies (compute_synced_dependencies current inferred) inferred
       = compute_synced_dependencies current inferred"
proof (rule sync_idempotent_keys [OF assms(1)])
  show "\<forall>m\<in>inferred.
        normalize_dist_name (parse_requirement_name m) \<in> inferred \<longrightarrow>
        normalize_dist_name (parse_requirement_name m) \<le> m \<and>
        normalize_dist_name (parse_requirement_name
            (normalize_dist_name (parse_requirement_name m)))
          = normalize_dist_name (parse_requirement_name m)"
    using assms(2) key_of_normalized by blast
qed

theorem sync_idempotent_witness:
  "finite {''click'', ''foo'', ''foo bar''} \<and>
   normalize_dist_name ''click'' = ''click'' \<and> \<not> is_space (hd ''click'') \<and>
   normalize_dist_name ''foo'' = ''foo'' \<and> \<not> is_space (hd ''foo'') \<and>
   normalize_dist_name ''foo bar'' = ''foo bar'' \<and> \<not> is_space (hd ''foo bar'') \<and>
   compute_synced_dependencies [''foo>=1'', ''unusedpkg''] {''click'', ''foo'', ''foo bar''}
     = [''click'', ''foo>=1'', ''foo bar''] \<and>
   compute_synced_dependencies [''click'', ''foo>=1'', ''foo bar''] {''click'', ''foo'', ''foo bar''}
     = [''click'', ''foo>=1'', ''foo bar'']"
proof -
  have f: "finite {''click'', ''foo'', ''foo bar''}"
    by simp
  have k: "normalize_dist_name ''click'' = ''click''" "\<not> is_space (hd ''click'')"
      "normalize_dist_name ''foo'' = ''foo''" "\<not> is_space (hd ''foo'')"
      "normalize_dist_name ''foo bar'' = ''foo bar''" "\<not> is_space (hd ''foo bar'')"
    by code_simp+
  have o: "\<forall>m\<in>{''click'', ''foo'', ''foo bar''}.
      normalize_dist_name m = m \<and> (m = [] \<or> \<not> is_space (hd m))"
    using k by simp
  have v: "compute_synced_dependencies [''foo>=1'', ''unusedpkg'']
       {''click'', ''foo'', ''foo bar''} = [''click'', ''foo>=1'', ''foo bar'']"
    by code_simp
  from f k v sync_idempotent [OF f o, of "[''foo>=1'', ''unusedpkg'']"]
  show ?thesis by (simp only: simp_thms)
qed

text \<open>
  C2 as stated fails: the inferred set below comes out of \<open>infer_dependencies\<close>, and
  the second run of sync changes the output of the first.
\<close>

theorem sync_not_idempotent_counterexample:
  "infer_dependencies [''pkg'', ''requests''] Map.empty {} {} (Some [''pkg'' \<mapsto> '' requests''])
     = {''requests'', '' requests''} \<and>
   compute_synced_dependencies [] {''requests'', '' requests''} = ['' requests'', ''requests''] \<and>
   compute_synced_dependencies ['' requests'', ''requests''] {''requests'', '' requests''}
     = ['' requests'', '' requests''] \<and>
   normalize_dist_name '' requests'' = '' requests'' \<and>
   normalize_dist_name ''requests'' = ''requests''"
proof -
  have "infer_dependencies [''pkg'', ''requests''] Map.empty {} {}
          (Some [''pkg'' \<mapsto> '' requests'']) = {''requests'', '' requests''}"
    by (simp add: infer_dependencies_def infer_step_def normalize_dist_name_def lower_def
          lower_char_def is_sep_def)
  moreover have "compute_synced_dependencies [] {''requests'', '' requests''}
      = ['' requests'', ''requests'']"
    by code_simp
  moreover have "compute_synced_dependencies ['' requests'', ''requests'']
      {''requests'', '' requests''} = ['' requests'', '' requests'']"
    by code_simp
  moreover have "normalize_dist_name '' requests'' = '' requests''"
      "normalize_dist_name ''requests'' = ''requests''"
    by code_simp+
  ultimately show ?thesis by blast
qed

section \<open>Resolution\<close>

lemma infer_step_union:
  "infer_step dm lm sm em module inferred = inferred \<union> infer_step dm lm sm em module {}"
  by (simp add: infer_step_def split: option.splits list.splits)

lemma infer_loop_union:
  "infer_loop dm lm sm em modules inferred =
     inferred \<union> (\<Union>module\<in>set modules. infer_step dm lm sm em module {})"
proof (induction modules arbitrary: inferred)
  case Nil
  show ?case by simp
next
  case (Cons module modules)
  have "infer_loop dm lm sm em (module # modules) inferred =
      infer_step dm lm sm em module inferred
        \<union> (\<Union>module\<in>set modules. infer_step dm lm sm em module {})"
    by (simp add: Cons.IH)
  also have "infer_step dm lm sm em module inferred
      = inferred \<union> infer_step dm lm sm em module {}"
    by (rule infer_step_union)
  finally show ?case
    by (simp add: Un_assoc)
qed

lemma infer_step_excluded:
  "module \<in> sm \<or> module \<in> lm \<Longrightarrow> infer_step dm lm sm em module inferred = inferred"
  by (simp add: infer_step_def)

lemma infer_loop_filter:
  "infer_loop dm lm sm em modules inferred =
     infer_loop dm lm sm em (filter (\<lambda>m. m \<notin> sm \<and> m \<notin> lm) modules) inferred"
proof (induction modules arbitrary: inferred)
  case Nil
  show ?case by simp
next
  case (Cons module modules)
  show ?case
  proof (cases "module \<in> sm \<or> module \<in> lm")
    case True
    then have "infer_step dm lm sm em module inferred = inferred"
      by (rule infer_step_excluded)
    with True Cons.IH [of inferred] show ?thesis
      by simp
  next
    case False
    with Cons.IH [of "infer_step dm lm sm em module inferred"] show ?thesis
      by simp
  qed
qed

text \<open>
  C4. An import name of the stdlib set or of the local-module set adds nothing to the
  inferred set, whatever the explicit map and the distribution index say about it:
  the result is that of the loop run without such names.
\<close>

theorem stdlib_local_excluded:
  "infer_dependencies imports dm lm sm em =
     infer_dependencies (filter (\<lambda>m. m \<notin> sm \<and> m \<notin> lm) imports) dm lm sm em \<and>
   (module \<in> sm \<or> module \<in> lm \<longrightarrow>
      infer_dependencies (earlier @ module # later) dm lm sm em =
        infer_dependencies (earlier @ later) dm lm sm em)"
proof -
  let ?keep = "filter (\<lambda>m. m \<notin> sm \<and> m \<notin> lm)"
  have f: "infer_dependencies ms dm lm sm em = infer_dependencies (?keep ms) dm lm sm em" for ms
    unfolding infer_dependencies_def by (rule infer_loop_filter)
  have "infer_dependencies (earlier @ module # later) dm lm sm em =
        infer_dependencies (earlier @ later) dm lm sm em" if "module \<in> sm \<or> module \<in> lm"
  proof -
    from that have "?keep (earlier @ module # later) = ?keep (earlier @ later)"
      by auto
    then show ?thesis
      using f [of "earlier @ module # later"] f [of "earlier @ later"] by simp
  qed
  with f show ?thesis by blast
qed

theorem stdlib_local_excluded_witness:
  "infer_dependencies ([''requests''] @ ''os'' # [''mypkg'']) [''os'' \<mapsto> [''os-sys'']] {''mypkg''} {''os''}
       (Some [''os'' \<mapsto> ''os-override'', ''mypkg'' \<mapsto> ''my-dist''])
     = {''requests''} \<and>
   infer_dependencies ([''requests''] @ [''mypkg'']) [''os'' \<mapsto> [''os-sys'']] {''mypkg''} {''os''}
       (Some [''os'' \<mapsto> ''os-override'', ''mypkg'' \<mapsto> ''my-dist''])
     = {''requests''}"
proof -
  have s: "''os'' \<in> {''os''} \<or> ''os'' \<in> {''mypkg''}"
    by simp
  have v: "infer_dependencies ([''requests''] @ [''mypkg'']) [''os'' \<mapsto> [''os-sys'']] {''mypkg''} {''os''}
       (Some [''os'' \<mapsto> ''os-override'', ''mypkg'' \<mapsto> ''my-dist'']) = {''requests''}"
    by (simp add: infer_dependencies_def infer_step_def normalize_dist_name_def lower_def
          lower_char_def is_sep_def)
  have "infer_dependencies ([''requests''] @ ''os'' # [''mypkg'']) [''os'' \<mapsto> [''os-sys'']] {''mypkg''} {''os''}
       (Some [''os'' \<mapsto> ''os-override'', ''mypkg'' \<mapsto> ''my-dist''])
     = infer_dependencies ([''requests''] @ [''mypkg'']) [''os'' \<mapsto> [''os-sys'']] {''mypkg''} {''os''}
       (Some [''os'' \<mapsto> ''os-override'', ''mypkg'' \<mapsto> ''my-dist''])"
    by (rule stdlib_local_excluded [THEN conjunct2, THEN mp, OF s])
  with v show ?thesis
    by (simp only:)
qed

lemma infer_step_empty_override:
  assumes "em module = Some []"
  shows "infer_step dm lm sm em m inferred = infer_step dm lm sm (em(module := None)) m inferred"
  using assms by (cases "m = module") (simp_all add: infer_step_def)

lemma infer_loop_empty_override:
  assumes "em module = Some []"
  shows "infer_loop dm lm sm em modules inferred =
     infer_loop dm lm sm (em(module := None)) modules inferred"
proof (induction modules arbitrary: inferred)
  case Nil
  show ?case by simp
next
  case (Cons m modules)
  have step: "infer_step dm lm sm em m inferred =
      infer_step dm lm sm (em(module := None)) m inferred"
    using assms by (rule infer_step_empty_override [of em "module"])
  show ?case
    by (simp only: infer_loop.simps step Cons.IH)
qed

text \<open>
  C10. An explicit-map entry whose value is the empty string is as good as absent: the
  result is the one for the map without the entry, and the name resolves through the
  distribution index or, failing that, to its own normalized form.
\<close>

theorem empty_override_ignored:
  assumes "em module = Some []"
  shows "infer_dependencies imports dm lm sm (Some em) =
           infer_dependencies imports dm lm sm (Some (em(module := None))) \<and>
         (module \<notin> sm \<and> module \<notin> lm \<longrightarrow>
            infer_dependencies [module] dm lm sm (Some em) =
              {normalize_dist_name
                 (case dm module of Some (candidate # rest) \<Rightarrow> candidate | _ \<Rightarrow> module)})"
proof -
  have "infer_dependencies imports dm lm sm (Some em) =
           infer_dependencies imports dm lm sm (Some (em(module := None)))"
    unfolding infer_dependencies_def using assms infer_loop_empty_override [of em "module"] by simp
  moreover have "infer_dependencies [module] dm lm sm (Some em) =
      {normalize_dist_name (case dm module of Some (candidate # rest) \<Rightarrow> candidate | _ \<Rightarrow> module)}"
    if "module \<notin> sm \<and> module \<notin> lm"
    using that assms
    by (simp add: infer_dependencies_def infer_step_def split: option.splits list.splits)
  ultimately show ?thesis by blast
qed


theorem empty_override_ignored_witness:
  "[''yaml'' \<mapsto> []] ''yaml'' = Some ([] :: string) \<and>
   infer_dependencies [''yaml''] [''yaml'' \<mapsto> [''PyYAML'']] {} {''os''} (Some [''yaml'' \<mapsto> []])
     = {''pyyaml''} \<and>
   infer_dependencies [''yaml''] Map.empty {} {''os''} (Some [''yaml'' \<mapsto> []]) = {''yaml''}"
proof -
  have h: "[''yaml'' \<mapsto> []] ''yaml'' = Some ([] :: string)"
    by simp
  have n: "''yaml'' \<notin> {''os''} \<and> ''yaml'' \<notin> ({} :: string set)"
    by simp
  have a: "infer_dependencies [''yaml''] [''yaml'' \<mapsto> [''PyYAML'']] {} {''os''}
      (Some [''yaml'' \<mapsto> []]) = {normalize_dist_name ''PyYAML''}"
    using empty_override_ignored [of "[''yaml'' \<mapsto> []]" "''yaml''" "[''yaml'']"
        "[''yaml'' \<mapsto> [''PyYAML'']]" "{}" "{''os''}", OF h, THEN conjunct2, THEN mp, OF n]
    by simp
  have b: "infer_dependencies [''yaml''] Map.empty {} {''os''}
      (Some [''yaml'' \<mapsto> []]) = {normalize_dist_name ''yaml''}"
    using empty_override_ignored [of "[''yaml'' \<mapsto> []]" "''yaml''" "[''yaml'']"
        "Map.empty" "{}" "{''os''}", OF h, THEN conjunct2, THEN mp, OF n]
    by simp
  have c: "normalize_dist_name ''PyYAML'' = ''pyyaml''" "normalize_dist_name ''yaml'' = ''yaml''"
    by code_simp+
  from h a b c show ?thesis
    by (simp only: simp_thms)
qed

lemma build_distribution_loop_entry:
  "build_distribution_loop items mapping module = Some cs \<Longrightarrow>
   mapping module = Some cs \<or>
   (\<exists>name dists. (name, dists) \<in> set items \<and> lower name = module \<and> cs \<noteq> [] \<and>
      cs = sorted_list_of_set
             (set (map normalize_dist_name (filter (\<lambda>dep. dep \<noteq> []) dists))))"
proof (induction items arbitrary: mapping)
  case Nil
  then show ?case by simp
next
  case (Cons item items)
  obtain name dists where item: "item = (name, dists)"
    by (cases item)
  let ?normalized = "sorted_list_of_set
      (set (map normalize_dist_name (filter (\<lambda>dep. dep \<noteq> []) dists)))"
  let ?mapping = "if ?normalized \<noteq> [] then mapping(lower name \<mapsto> ?normalized) else mapping"
  from Cons.prems have "build_distribution_loop items ?mapping module = Some cs"
    unfolding item build_distribution_loop.simps Let_def .
  from Cons.IH [OF this] consider
      (old) "?mapping module = Some cs"
    | (later) "\<exists>name dists. (name, dists) \<in> set items \<and> lower name = module \<and> cs \<noteq> [] \<and>
        cs = sorted_list_of_set
               (set (map normalize_dist_name (filter (\<lambda>dep. dep \<noteq> []) dists)))"
    by blast
  then show ?case
  proof cases
    case old
    show ?thesis
    proof (cases "?normalized \<noteq> [] \<and> lower name = module")
      case True
      with old have "cs = ?normalized"
        by simp
      with True item show ?thesis
        by (intro disjI2 exI [of _ name] exI [of _ dists]) simp
    next
      case False
      with old have "mapping module = Some cs"
        by (auto split: if_splits)
      then show ?thesis ..
    qed
  next
    case later
    then show ?thesis
      by auto
  qed
qed

lemma infer_step_candidate:
  assumes "module \<notin> sm" "module \<notin> lm" "em module = None" "dm module = Some (candidate # rest)"
  shows "infer_step dm lm sm em module {} = {normalize_dist_name candidate}"
  using assms by (simp add: infer_step_def)

lemma infer_dependencies_first_candidate:
  assumes "module \<notin> sm" "module \<notin> lm"
    and "\<forall>m. em = Some m \<longrightarrow> m module = None"
    and "dm module = Some (candidate # rest)"
  shows "infer_dependencies (earlier @ module # later) dm lm sm em =
           insert (normalize_dist_name candidate)
             (infer_dependencies (earlier @ later) dm lm sm em)"
proof -
  let ?em = "case em of None \<Rightarrow> Map.empty | Some m \<Rightarrow> m"
  from assms(3) have "?em module = None"
    by (cases em) simp_all
  with assms have step: "infer_step dm lm sm ?em module {} = {normalize_dist_name candidate}"
    by (intro infer_step_candidate)
  have "(\<Union>m\<in>set (earlier @ module # later). infer_step dm lm sm ?em m {}) =
      infer_step dm lm sm ?em module {} \<union> (\<Union>m\<in>set (earlier @ later). infer_step dm lm sm ?em m {})"
    by auto
  then show ?thesis
    unfolding infer_dependencies_def infer_loop_union step by simp
qed

text \<open>
  C1, as the code has it. A name that is neither excluded nor explicitly mapped
  contributes exactly the normalized first candidate of the index entry that
  \<open>infer_dependencies\<close> is given: alone it resolves to that one name, and among other
  names it adds that name to what the others resolve to. An entry of the index that
  \<open>build_distribution_map\<close> builds lists the normalized, non-empty distribution names
  reported for the module in ascending order, each once, so there the contribution is
  the least of them.
\<close>

theorem first_candidate_of_index:
  assumes "module \<notin> sm" "module \<notin> lm"
    and "\<forall>m. em = Some m \<longrightarrow> m module = None"
  shows "(dm module = Some (candidate # rest) \<longrightarrow>
            infer_dependencies [module] dm lm sm em = {normalize_dist_name candidate} \<and>
            infer_dependencies (earlier @ module # later) dm lm sm em =
              insert (normalize_dist_name candidate)
                (infer_dependencies (earlier @ later) dm lm sm em)) \<and>
         (build_distribution_map raw_map module = Some candidates \<longrightarrow>
            candidates \<noteq> [] \<and> sorted candidates \<and> distinct candidates \<and>
            (\<exists>name dists. (name, dists) \<in> set raw_map \<and> lower name = module \<and>
               set candidates = normalize_dist_name ` {dep \<in> set dists. dep \<noteq> []}) \<and>
            infer_dependencies [module] (build_distribution_map raw_map) lm sm em
              = {hd candidates} \<and>
            infer_dependencies (earlier @ module # later) (build_distribution_map raw_map) lm sm em =
              insert (hd candidates)
                (infer_dependencies (earlier @ later) (build_distribution_map raw_map) lm sm em))"
proof (intro conjI impI)
  assume given: "dm module = Some (candidate # rest)"
  from assms given
  show "infer_dependencies (earlier @ module # later) dm lm sm em =
      insert (normalize_dist_name candidate) (infer_dependencies (earlier @ later) dm lm sm em)"
    by (rule infer_dependencies_first_candidate)
  from assms given
  have "infer_dependencies ([] @ module # []) dm lm sm em =
      insert (normalize_dist_name candidate) (infer_dependencies ([] @ []) dm lm sm em)"
    by (rule infer_dependencies_first_candidate)
  then show "infer_dependencies [module] dm lm sm em = {normalize_dist_name candidate}"
    by (simp add: infer_dependencies_def)
next
  assume built: "build_distribution_map raw_map module = Some candidates"
  then obtain name dists where entry: "(name, dists) \<in> set raw_map" "lower name = module"
      "candidates \<noteq> []"
      "candidates = sorted_list_of_set
         (set (map normalize_dist_name (filter (\<lambda>dep. dep \<noteq> []) dists)))"
    unfolding build_distribution_map_def
    by (auto dest!: build_distribution_loop_entry)
  show "candidates \<noteq> []"
    by (rule entry(3))
  show "sorted candidates" "distinct candidates"
    by (simp_all add: entry(4))
  have "set candidates = normalize_dist_name ` {dep \<in> set dists. dep \<noteq> []}"
    by (auto simp: entry(4))
  with entry(1,2)
  show "\<exists>name dists. (name, dists) \<in> set raw_map \<and> lower name = module \<and>
      set candidates = normalize_dist_name ` {dep \<in> set dists. dep \<noteq> []}"
    by blast
  from entry(3) obtain c cs where cs: "candidates = c # cs"
    by (cases candidates) auto
  then have "c \<in> set candidates"
    by simp
  then have c: "normalize_dist_name c = c"
    by (auto simp: entry(4) normalize_dist_name_idem)
  from built cs have first: "build_distribution_map raw_map module = Some (c # cs)"
    by simp
  from assms first
  have "infer_dependencies (earlier @ module # later) (build_distribution_map raw_map) lm sm em =
      insert (normalize_dist_name c)
        (infer_dependencies (earlier @ later) (build_distribution_map raw_map) lm sm em)"
    by (rule infer_dependencies_first_candidate)
  then show "infer_dependencies (earlier @ module # later) (build_distribution_map raw_map) lm sm em =
      insert (hd candidates)
        (infer_dependencies (earlier @ later) (build_distribution_map raw_map) lm sm em)"
    by (simp add: c cs)
  from assms first
  have "infer_dependencies ([] @ module # []) (build_distribution_map raw_map) lm sm em =
      insert (normalize_dist_name c)
        (infer_dependencies ([] @ []) (build_distribution_map raw_map) lm sm em)"
    by (rule infer_dependencies_first_candidate)
  then show "infer_dependencies [module] (build_distribution_map raw_map) lm sm em = {hd candidates}"
    by (simp add: c cs infer_dependencies_def)
qed

theorem first_candidate_of_index_witness:
  "''google'' \<notin> {''os''} \<and> ''google'' \<notin> ({} :: string set) \<and>
   build_distribution_map [(''Google'', [''protobuf'', ''Google_Auth'', []])] ''google''
     = Some [''google-auth'', ''protobuf''] \<and>
   infer_dependencies [''google'']
       (build_distribution_map [(''Google'', [''protobuf'', ''Google_Auth'', []])]) {} {''os''} None
     = {''google-auth''} \<and>
   infer_dependencies ([''os''] @ ''google'' # [''yaml''])
       (build_distribution_map [(''Google'', [''protobuf'', ''Google_Auth'', []])]) {} {''os''} None
     = {''google-auth'', ''yaml''} \<and>
   infer_dependencies [''google''] [''google'' \<mapsto> [''Protobuf'', ''Google_Auth'']] {} {''os''} None
     = {''protobuf''}"
proof -
  let ?raw = "[(''Google'', [''protobuf'', ''Google_Auth'', []])]"
  have h1: "''google'' \<notin> {''os''}"
    by simp
  have h2: "''google'' \<notin> ({} :: string set)"
    by simp
  have h3: "\<forall>m. (None :: (string \<rightharpoonup> string) option) = Some m \<longrightarrow> m ''google'' = None"
    by simp
  have m: "build_distribution_map ?raw ''google'' = Some [''google-auth'', ''protobuf'']"
    by code_simp
  have d: "[''google'' \<mapsto> [''Protobuf'', ''Google_Auth'']] ''google''
     = Some (''Protobuf'' # [''Google_Auth''])"
    by simp
  have n: "normalize_dist_name ''Protobuf'' = ''protobuf''" "normalize_dist_name ''yaml'' = ''yaml''"
    by code_simp+
  note t = first_candidate_of_index [where module = "''google''" and sm = "{''os''}" and lm = "{}"
      and em = None and earlier = "[''os'']" and later = "[''yaml'']", OF h1 h2 h3]
  note b = t [where raw_map = "?raw", THEN conjunct2, THEN mp, OF m]
  have rest: "infer_dependencies ([''os''] @ [''yaml'']) (build_distribution_map ?raw) {} {''os''} None
      = {''yaml''}"
    by code_simp
  from b have a1: "infer_dependencies [''google''] (build_distribution_map ?raw) {} {''os''} None
      = {hd [''google-auth'', ''protobuf'']}"
    by (elim conjE)
  from b have a2: "infer_dependencies ([''os''] @ ''google'' # [''yaml''])
        (build_distribution_map ?raw) {} {''os''} None
      = insert (hd [''google-auth'', ''protobuf''])
          (infer_dependencies ([''os''] @ [''yaml'']) (build_distribution_map ?raw) {} {''os''} None)"
    by (elim conjE)
  have a3: "infer_dependencies [''google''] [''google'' \<mapsto> [''Protobuf'', ''Google_Auth'']]
        {} {''os''} None = {normalize_dist_name ''Protobuf''}"
    using t [where dm = "[''google'' \<mapsto> [''Protobuf'', ''Google_Auth'']]",
        THEN conjunct1, THEN mp, OF d]
    by (elim conjE)
  from h1 h2 m a1 a2 [unfolded rest] a3 [unfolded n] show ?thesis
    by (simp only: list.sel simp_thms)
qed

text \<open>
  C1 as stated fails: the metadata reports \<open>protobuf\<close> first, the entry is sorted,
  and the name resolves to \<open>google-auth\<close>.
\<close>

theorem first_candidate_counterexample:
  "build_distribution_map [(''google'', [''protobuf'', ''google-auth''])] ''google''
     = Some [''google-auth'', ''protobuf''] \<and>
   infer_dependencies [''google''] (build_distribution_map [(''google'', [''protobuf'', ''google-auth''])])
       {} {} None = {''google-auth''} \<and>
   normalize_dist_name ''protobuf'' \<noteq> ''google-auth''"
proof -
  have m: "build_distribution_map [(''google'', [''protobuf'', ''google-auth''])] ''google''
     = Some [''google-auth'', ''protobuf'']"
    by code_simp
  have n: "normalize_dist_name ''google-auth'' = ''google-auth''"
      "normalize_dist_name ''protobuf'' \<noteq> ''google-auth''"
    by code_simp+
  have "infer_dependencies [''google'']
      (build_distribution_map [(''google'', [''protobuf'', ''google-auth''])]) {} {} None
      = {''google-auth''}"
    by (simp add: infer_dependencies_def infer_step_def m n)
  with m n show ?thesis by blast
qed


section \<open>Scanning\<close>

lemma nodes_of_children: "nodes_of n = insert n (\<Union>c\<in>set (child_nodes n). nodes_of c)"
  by (cases n) simp_all

lemma set_walk: "set (walk todo) = (\<Union>n\<in>set todo. nodes_of n)"
proof (induction todo rule: walk.induct)
  case 1
  show ?case by simp
next
  case (2 n todo)
  have "set (walk (n # todo)) = insert n (set (walk (todo @ child_nodes n)))"
    by simp
  also have "\<dots> = insert n ((\<Union>m\<in>set todo. nodes_of m) \<union> (\<Union>c\<in>set (child_nodes n). nodes_of c))"
    by (simp add: "2.IH")
  also have "\<dots> = nodes_of n \<union> (\<Union>m\<in>set todo. nodes_of m)"
    using nodes_of_children [of n] by blast
  finally show ?case
    by simp
qed

lemma scan_nodes_union: "scan_nodes ns found = found \<union> (\<Union>n\<in>set ns. node_imports n)"
  by (induction ns arbitrary: found) auto

lemma node_imports_iff:
  "x \<in> node_imports n \<longleftrightarrow>
     (\<exists>names name. n = Import names \<and> name \<in> set names \<and> x = lower (first_segment name)) \<or>
     (\<exists>m. n = ImportFrom (Some m) 0 \<and> m \<noteq> [] \<and> x = lower (first_segment m))"
  by (cases n) (auto split: option.splits if_splits)

text \<open>
  C5. For a source text that parses, the extracted set holds exactly: for every \<open>Import\<close>
  node of the tree, the lowercased first dotted segment of each imported name; and for
  every \<open>ImportFrom\<close> node of level 0 with a module, the lowercased first segment of the
  module. A relative import (level above 0) adds nothing.
\<close>

theorem extract_imports_contributions:
  assumes "parse source = Inr tree"
  shows "extract_imports_from_source parse source =
     Inr ({lower (first_segment name) | name names.
             Import names \<in> nodes_of tree \<and> name \<in> set names} \<union>
          {lower (first_segment m) | m. ImportFrom (Some m) 0 \<in> nodes_of tree \<and> m \<noteq> []})"
proof -
  have "set (walk [tree]) = nodes_of tree"
    unfolding set_walk by simp
  then have "scan_nodes (walk [tree]) {} = (\<Union>n\<in>nodes_of tree. node_imports n)"
    unfolding scan_nodes_union by simp
  also have "\<dots> = {lower (first_segment name) | name names.
             Import names \<in> nodes_of tree \<and> name \<in> set names} \<union>
          {lower (first_segment m) | m. ImportFrom (Some m) 0 \<in> nodes_of tree \<and> m \<noteq> []}"
    (is "?l = ?r")
  proof (rule set_eqI)
    fix x
    have "x \<in> ?l \<longleftrightarrow> (\<exists>n\<in>nodes_of tree. x \<in> node_imports n)"
      by simp
    also have "\<dots> \<longleftrightarrow> x \<in> ?r"
      unfolding node_imports_iff by blast
    finally show "x \<in> ?l \<longleftrightarrow> x \<in> ?r" .
  qed
  finally show ?thesis
    using assms by (simp add: extract_imports_from_source_def)
qed


theorem extract_imports_contributions_witness:
  "(\<lambda>source. Inr (Other [Import [''os'', ''Requests.sessions''],
        Other [ImportFrom (Some ''click.core'') 0, ImportFrom (Some ''local'') 1,
               ImportFrom None 1, ImportFrom (Some ''pkg.sub'') 2]]) :: exn + node) ''text''
     = Inr (Other [Import [''os'', ''Requests.sessions''],
        Other [ImportFrom (Some ''click.core'') 0, ImportFrom (Some ''local'') 1,
               ImportFrom None 1, ImportFrom (Some ''pkg.sub'') 2]]) \<and>
   {''os'', ''requests'', ''click''} =
     {lower (first_segment name) | name names.
        Import names \<in> nodes_of (Other [Import [''os'', ''Requests.sessions''],
          Other [ImportFrom (Some ''click.core'') 0, ImportFrom (Some ''local'') 1,
                 ImportFrom None 1, ImportFrom (Some ''pkg.sub'') 2]]) \<and> name \<in> set names} \<union>
     {lower (first_segment m) | m.
        ImportFrom (Some m) 0 \<in> nodes_of (Other [Import [''os'', ''Requests.sessions''],
          Other [ImportFrom (Some ''click.core'') 0, ImportFrom (Some ''local'') 1,
                 ImportFrom None 1, ImportFrom (Some ''pkg.sub'') 2]]) \<and> m \<noteq> []}"
proof -
  let ?tree = "Other [Import [''os'', ''Requests.sessions''],
        Other [ImportFrom (Some ''click.core'') 0, ImportFrom (Some ''local'') 1,
               ImportFrom None 1, ImportFrom (Some ''pkg.sub'') 2]]"
  let ?parse = "\<lambda>source :: string. Inr ?tree :: exn + node"
  have p: "?parse ''text'' = Inr ?tree"
    by simp
  have v: "extract_imports_from_source ?parse ''text'' = Inr {''os'', ''requests'', ''click''}"
    by code_simp
  from extract_imports_contributions [of ?parse "''text''" ?tree, OF p] v p
  show ?thesis
    by (simp only: sum.inject)
qed








section \<open>Sync and the manifest\<close>

lemma sync_unfold:
  assumes "files path = Some source_text" "parse_document ed source_text = Inr parsed"
    and "document = (if has_project ed parsed then parsed else add_project ed parsed)"
    and "current = string_entries (get_dependencies ed document)"
    and "synced = compute_synced_dependencies current inferred"
  shows "sync_project_dependencies ed outcome files path inferred write =
     (if current \<noteq> synced \<and> write then
        (case write_text outcome files path (dumps ed (set_dependencies ed document synced)) of
           (Some e, files') \<Rightarrow> (Inl e, files')
         | (None, files') \<Rightarrow>
             (Inr \<lparr>changed = True, wrote = True, before = current, after = synced\<rparr>, files'))
      else (Inr \<lparr>changed = (current \<noteq> synced), wrote = False,
                 before = current, after = synced\<rparr>, files))"
proof -
  have "sync_project_dependencies ed outcome files path inferred write =
     (if current \<noteq> synced \<and> write then
        (case write_text outcome files path (dumps ed (set_dependencies ed document synced)) of
           (Some e, files') \<Rightarrow> (Inl e, files')
         | (None, files') \<Rightarrow>
             (Inr \<lparr>changed = (current \<noteq> synced), wrote = True,
                   before = current, after = synced\<rparr>, files'))
      else (Inr \<lparr>changed = (current \<noteq> synced), wrote = False,
                 before = current, after = synced\<rparr>, files))"
    unfolding sync_project_dependencies_def assms(1,2) option.case sum.case Let_def
      assms(3) [symmetric] assms(4) [symmetric] assms(5) [symmetric]
    by (rule refl)
  then show ?thesis
    by (cases "current \<noteq> synced \<and> write") (simp_all split: prod.splits option.splits)
qed

text \<open>
  C8. When the synced list equals the current list, \<open>sync_project_dependencies\<close> returns
  with \<open>changed\<close> and \<open>wrote\<close> false and leaves the files as they were, whatever the
  write flag.
\<close>

theorem unchanged_never_writes:
  assumes "files path = Some source_text" "parse_document ed source_text = Inr parsed"
    and "document = (if has_project ed parsed then parsed else add_project ed parsed)"
    and "current = string_entries (get_dependencies ed document)"
    and "compute_synced_dependencies current inferred = current"
  shows "sync_project_dependencies ed outcome files path inferred write =
     (Inr \<lparr>changed = False, wrote = False, before = current, after = current\<rparr>, files)"
  using assms(5)
  by (simp add: sync_unfold [where files = files and path = path and ed = ed, OF assms(1-4) assms(5) [symmetric]])

theorem unchanged_never_writes_witness:
  "[''pyproject.toml'' \<mapsto> ''requests>=2.0;unusedpkg;''] ''pyproject.toml''
     = Some ''requests>=2.0;unusedpkg;'' \<and>
   parse_document example_editor ''requests>=2.0;unusedpkg;''
     = Inr [TomlString ''requests>=2.0'', TomlString ''unusedpkg''] \<and>
   compute_synced_dependencies [''requests>=2.0'', ''unusedpkg''] {''requests'', ''unusedpkg''}
     = [''requests>=2.0'', ''unusedpkg''] \<and>
   sync_project_dependencies example_editor Completes
       [''pyproject.toml'' \<mapsto> ''requests>=2.0;unusedpkg;''] ''pyproject.toml''
       {''requests'', ''unusedpkg''} True
     = (Inr \<lparr>changed = False, wrote = False,
             before = [''requests>=2.0'', ''unusedpkg''],
             after = [''requests>=2.0'', ''unusedpkg'']\<rparr>,
        [''pyproject.toml'' \<mapsto> ''requests>=2.0;unusedpkg;''])"
proof -
  let ?files = "[''pyproject.toml'' \<mapsto> ''requests>=2.0;unusedpkg;'']"
  let ?parsed = "[TomlString ''requests>=2.0'', TomlString ''unusedpkg'']"
  have h1: "?files ''pyproject.toml'' = Some ''requests>=2.0;unusedpkg;''"
    by simp
  have h2: "parse_document example_editor ''requests>=2.0;unusedpkg;'' = Inr ?parsed"
    by (simp add: example_editor_def split_entries_def)
  have h3: "?parsed = (if has_project example_editor ?parsed then ?parsed
                       else add_project example_editor ?parsed)"
    by (simp add: example_editor_def)
  have h4: "[''requests>=2.0'', ''unusedpkg'']
      = string_entries (get_dependencies example_editor ?parsed)"
    by (simp add: example_editor_def)
  have h5: "compute_synced_dependencies [''requests>=2.0'', ''unusedpkg'']
      {''requests'', ''unusedpkg''} = [''requests>=2.0'', ''unusedpkg'']"
    by code_simp
  have "sync_project_dependencies example_editor Completes ?files ''pyproject.toml''
       {''requests'', ''unusedpkg''} True
     = (Inr \<lparr>changed = False, wrote = False,
             before = [''requests>=2.0'', ''unusedpkg''],
             after = [''requests>=2.0'', ''unusedpkg'']\<rparr>, ?files)"
    by (rule unchanged_never_writes [where files = "?files" and path = "''pyproject.toml''"
      and ed = example_editor, OF h1 h2 h3 h4 h5])
  with h1 h2 h5 show ?thesis
    by (intro conjI)
qed

text \<open>
  C7, as the code has it. With the write flag set and a changed list, the manifest is
  rewritten in place by one \<open>write_text\<close> of the whole serialized document: a write that
  completes leaves exactly the new text, and a write that fails after \<open>k\<close> characters
  leaves the first \<open>k\<close> characters of the new text. No other file changes.
\<close>

theorem rewrite_in_place:
  assumes "files path = Some source_text" "parse_document ed source_text = Inr parsed"
    and "document = (if has_project ed parsed then parsed else add_project ed parsed)"
    and "current = string_entries (get_dependencies ed document)"
    and "synced = compute_synced_dependencies current inferred"
    and "current \<noteq> synced"
  shows "sync_project_dependencies ed outcome files path inferred True =
     (case outcome of
        Completes \<Rightarrow>
          (Inr \<lparr>changed = True, wrote = True, before = current, after = synced\<rparr>,
           files(path \<mapsto> dumps ed (set_dependencies ed document synced)))
      | FailsAfter k \<Rightarrow>
          (Inl OSError, files(path \<mapsto> take k (dumps ed (set_dependencies ed document synced)))))"
  using assms(6)
  by (simp add: sync_unfold [where files = files and path = path and ed = ed, OF assms(1-5)] write_text_def split: write_outcome.splits)


theorem rewrite_in_place_witness:
  "[''pyproject.toml'' \<mapsto> ''requests>=2.0;unusedpkg;''] ''pyproject.toml''
     = Some ''requests>=2.0;unusedpkg;'' \<and>
   parse_document example_editor ''requests>=2.0;unusedpkg;''
     = Inr [TomlString ''requests>=2.0'', TomlString ''unusedpkg''] \<and>
   compute_synced_dependencies [''requests>=2.0'', ''unusedpkg''] {''requests'', ''click''}
     = [''click'', ''requests>=2.0''] \<and>
   [''requests>=2.0'', ''unusedpkg''] \<noteq> [''click'', ''requests>=2.0''] \<and>
   sync_project_dependencies example_editor Completes
       [''pyproject.toml'' \<mapsto> ''requests>=2.0;unusedpkg;''] ''pyproject.toml''
       {''requests'', ''click''} True
     = (Inr \<lparr>changed = True, wrote = True,
             before = [''requests>=2.0'', ''unusedpkg''],
             after = [''click'', ''requests>=2.0'']\<rparr>,
        [''pyproject.toml'' \<mapsto> ''requests>=2.0;unusedpkg;'']
          (''pyproject.toml'' \<mapsto> ''click;requests>=2.0;''))"
proof -
  let ?files = "[''pyproject.toml'' \<mapsto> ''requests>=2.0;unusedpkg;'']"
  let ?parsed = "[TomlString ''requests>=2.0'', TomlString ''unusedpkg'']"
  have h1: "?files ''pyproject.toml'' = Some ''requests>=2.0;unusedpkg;''"
    by simp
  have h2: "parse_document example_editor ''requests>=2.0;unusedpkg;'' = Inr ?parsed"
    by (simp add: example_editor_def split_entries_def)
  have h3: "?parsed = (if has_project example_editor ?parsed then ?parsed
                       else add_project example_editor ?parsed)"
    by (simp add: example_editor_def)
  have h4: "[''requests>=2.0'', ''unusedpkg'']
      = string_entries (get_dependencies example_editor ?parsed)"
    by (simp add: example_editor_def)
  have v: "compute_synced_dependencies [''requests>=2.0'', ''unusedpkg'']
      {''requests'', ''click''} = [''click'', ''requests>=2.0'']"
    by code_simp
  have h6: "[''requests>=2.0'', ''unusedpkg''] \<noteq> [''click'', ''requests>=2.0'']"
    by simp
  have d: "dumps example_editor (set_dependencies example_editor ?parsed
      [''click'', ''requests>=2.0'']) = ''click;requests>=2.0;''"
    by (simp add: example_editor_def)
  have "sync_project_dependencies example_editor Completes ?files ''pyproject.toml''
       {''requests'', ''click''} True
     = (Inr \<lparr>changed = True, wrote = True,
             before = [''requests>=2.0'', ''unusedpkg''],
             after = [''click'', ''requests>=2.0'']\<rparr>,
        ?files(''pyproject.toml'' \<mapsto> ''click;requests>=2.0;''))"
    using rewrite_in_place [where files = "?files" and path = "''pyproject.toml''"
      and ed = example_editor and outcome = Completes, OF h1 h2 h3 h4 v [symmetric] h6]
    by (simp only: d write_outcome.case)
  with h1 h2 v h6 show ?thesis
    by (intro conjI)
qed

text \<open>
  C7 as stated fails: a write that fails after nine characters leaves a manifest
  that is neither the prior text nor the new one.
\<close>

theorem rewrite_not_atomic_counterexample:
  "[''pyproject.toml'' \<mapsto> ''requests>=2.0;unusedpkg;''] ''pyproject.toml''
     = Some ''requests>=2.0;unusedpkg;'' \<and>
   fst (sync_project_dependencies example_editor (FailsAfter 9)
          [''pyproject.toml'' \<mapsto> ''requests>=2.0;unusedpkg;''] ''pyproject.toml''
          {''requests'', ''click''} True) = Inl OSError \<and>
   snd (sync_project_dependencies example_editor (FailsAfter 9)
          [''pyproject.toml'' \<mapsto> ''requests>=2.0;unusedpkg;''] ''pyproject.toml''
          {''requests'', ''click''} True) ''pyproject.toml'' = Some ''click;req'' \<and>
   snd (sync_project_dependencies example_editor Completes
          [''pyproject.toml'' \<mapsto> ''requests>=2.0;unusedpkg;''] ''pyproject.toml''
          {''requests'', ''click''} True) ''pyproject.toml'' = Some ''click;requests>=2.0;''"
proof -
  let ?files = "[''pyproject.toml'' \<mapsto> ''requests>=2.0;unusedpkg;'']"
  let ?parsed = "[TomlString ''requests>=2.0'', TomlString ''unusedpkg'']"
  have h1: "?files ''pyproject.toml'' = Some ''requests>=2.0;unusedpkg;''"
    by simp
  have h2: "parse_document example_editor ''requests>=2.0;unusedpkg;'' = Inr ?parsed"
    by (simp add: example_editor_def split_entries_def)
  have h3: "?parsed = (if has_project example_editor ?parsed then ?parsed
                       else add_project example_editor ?parsed)"
    by (simp add: example_editor_def)
  have h4: "[''requests>=2.0'', ''unusedpkg'']
      = string_entries (get_dependencies example_editor ?parsed)"
    by (simp add: example_editor_def)
  have v: "compute_synced_dependencies [''requests>=2.0'', ''unusedpkg'']
      {''requests'', ''click''} = [''click'', ''requests>=2.0'']"
    by code_simp
  have d: "dumps example_editor (set_dependencies example_editor ?parsed
      [''click'', ''requests>=2.0'']) = ''click;requests>=2.0;''"
    by (simp add: example_editor_def)
  note u = sync_unfold [where files = "?files" and path = "''pyproject.toml''"
      and ed = example_editor, OF h1 h2 h3 h4 v [symmetric]]
  have "fst (sync_project_dependencies example_editor (FailsAfter 9) ?files ''pyproject.toml''
          {''requests'', ''click''} True) = Inl OSError"
    by (simp add: u d write_text_def)
  moreover have "snd (sync_project_dependencies example_editor (FailsAfter 9) ?files
          ''pyproject.toml'' {''requests'', ''click''} True) ''pyproject.toml'' = Some ''click;req''"
    by (simp add: u d write_text_def)
  moreover have "snd (sync_project_dependencies example_editor Completes ?files
          ''pyproject.toml'' {''requests'', ''click''} True) ''pyproject.toml''
        = Some ''click;requests>=2.0;''"
    by (simp add: u d write_text_def)
  ultimately show ?thesis
    using h1 by (intro conjI)
qed

end
